theory Spec2Isabelle
  imports Main
begin

section \<open>The object store\<close>

text \<open>
  Filter nodes are JavaScript objects, and several properties of
  \<^verbatim>\<open>updateComponentCondition\<close> speak about object identity and about the absence of
  mutation. Objects therefore live in an explicit store: a list of cells, the address of an
  object being its index. A reference is an address or \<^verbatim>\<open>null\<close>; allocating an object
  appends a cell. Reading an address that holds no cell yields \<open>None\<close>, which every
  type test of the code treats like a value that carries none of the node type tags.

  The node kinds follow the \<^verbatim>\<open>Type\<close> tags of the filter DSL: the operands of a condition
  are nodes (addresses), the condition wrapped by a component marker is a node or
  \<^verbatim>\<open>null\<close>, the id of a component marker is a string or \<^verbatim>\<open>null\<close>. Scalar literals are
  restricted to null, booleans, integers and strings.
\<close>

type_synonym addr = nat

type_synonym ref = "addr option"

datatype scalar = SNull | SBool bool | SInt int | SString string

datatype node =
    Field string
  | Value string scalar "string option"
  | Values string "scalar list"
  | Condition string "addr list"
  | Component "string option" ref

type_synonym heap = "node list"

definition deref :: "heap \<Rightarrow> addr \<Rightarrow> node option" where
  "deref h a = (if a < length h then Some (h ! a) else None)"

text \<open>Property reads \<^verbatim>\<open>node.condition\<close>, \<^verbatim>\<open>node.operands\<close> and \<^verbatim>\<open>node.name\<close>.\<close>

definition condition_of :: "heap \<Rightarrow> addr \<Rightarrow> ref" where
  "condition_of h a = (case deref h a of Some (Component i c) \<Rightarrow> c | _ \<Rightarrow> None)"

definition operands_of :: "heap \<Rightarrow> addr \<Rightarrow> addr list" where
  "operands_of h a = (case deref h a of Some (Condition n ops) \<Rightarrow> ops | _ \<Rightarrow> [])"

definition name_of :: "heap \<Rightarrow> addr \<Rightarrow> string" where
  "name_of h a = (case deref h a of Some (Condition n ops) \<Rightarrow> n | Some (Field n) \<Rightarrow> n | _ \<Rightarrow> [])"

text \<open>Property writes \<^verbatim>\<open>node.condition = c\<close> and \<^verbatim>\<open>node.operands = ops\<close>.\<close>

definition set_condition :: "addr \<Rightarrow> ref \<Rightarrow> heap \<Rightarrow> heap" where
  "set_condition a c h =
     (case deref h a of Some (Component i old) \<Rightarrow> h[a := Component i c] | _ \<Rightarrow> h)"

definition set_operands :: "addr \<Rightarrow> addr list \<Rightarrow> heap \<Rightarrow> heap" where
  "set_operands a ops h =
     (case deref h a of Some (Condition n old) \<Rightarrow> h[a := Condition n ops] | _ \<Rightarrow> h)"

section \<open>The parts of the filter DSL used by the merge\<close>

text \<open>
  Modelled from the spec: \<^verbatim>\<open>component(id)\<close> of FilterDSL, which is imported by the
  source but is not part of it. The spec: a Component marker node with
  \<^verbatim>\<open>condition: null\<close> initially; the caller assigns \<^verbatim>\<open>.condition\<close> after creation.
\<close>

definition component :: "string option \<Rightarrow> heap \<Rightarrow> addr \<times> heap" where
  "component cid h = (length h, h @ [Component cid None])"

text \<open>
  Modelled from the spec: \<^verbatim>\<open>condition(name)\<close> of FilterDSL. The spec: a Condition node
  whose name is fixed at creation, with the operands left for the caller to assign.
\<close>

definition condition :: "string \<Rightarrow> heap \<Rightarrow> addr \<times> heap" where
  "condition name h = (length h, h @ [Condition name []])"

text \<open>
  Modelled from the spec: \<^verbatim>\<open>isLogicalCondition(node)\<close> of FilterDSL. The spec: true iff
  the node is a Condition with name "and" or "or".
\<close>

definition isLogicalCondition :: "heap \<Rightarrow> ref \<Rightarrow> bool" where
  "isLogicalCondition h r =
     (case r of
        None \<Rightarrow> False
      | Some a \<Rightarrow>
         (case deref h a of
            Some (Condition name ops) \<Rightarrow> name = ''and'' \<or> name = ''or''
          | _ \<Rightarrow> False))"

section \<open>simplifyCondition\<close>

text \<open>
  The loop of \<^verbatim>\<open>simplifyCondition\<close> over the operands: it leaves at the first operand
  that is not a component marker or whose id is not \<^verbatim>\<open>null\<close> (result \<open>False\<close>: the
  function returns \<^verbatim>\<open>cond\<close>), and runs to the end otherwise (result \<open>True\<close>: the function
  returns \<^verbatim>\<open>null\<close>).
\<close>

fun simplifyLoop :: "heap \<Rightarrow> addr list \<Rightarrow> bool" where
  "simplifyLoop h [] = True"
| "simplifyLoop h (operand # rest) =
     (case deref h operand of
        Some (Component i c) \<Rightarrow> (if i \<noteq> None then False else simplifyLoop h rest)
      | _ \<Rightarrow> False)"

definition simplifyCondition :: "heap \<Rightarrow> ref \<Rightarrow> ref" where
  "simplifyCondition h cond =
     (case cond of
        None \<Rightarrow> cond
      | Some a \<Rightarrow>
         (case deref h a of
            Some (Condition name operands) \<Rightarrow>
              if name = ''and''
              then (if simplifyLoop h operands then None else cond)
              else cond
          | _ \<Rightarrow> cond))"

section \<open>updateComponentCondition\<close>

text \<open>
  The two \<^verbatim>\<open>throw new Error(...)\<close> of the function: the root is no logical condition,
  and an operand is no component marker.
\<close>

datatype error = InvalidCurrentCondition | InvalidComponentStructure

text \<open>
  The way the loop over the operands of the composite is left: by a throw, by the
  \<^verbatim>\<open>return compositeCondition\<close> inside the loop, or at its end with the list
  \<^verbatim>\<open>componentConditions\<close> and the flag \<^verbatim>\<open>found\<close>.
\<close>

datatype loop_result = Threw error | ReturnOriginal | Finished "addr list" bool

text \<open>
  \<^verbatim>\<open>compareConditions\<close> is imported by the source from a module that is not part of it;
  the merge takes it as the parameter \<open>cmp\<close>: a function of the store, two references and
  the flag \<^verbatim>\<open>treatEmptyAsEqual\<close>.
\<close>

type_synonym comparator = "heap \<Rightarrow> ref \<Rightarrow> ref \<Rightarrow> bool \<Rightarrow> bool"

fun updateLoop ::
  "comparator \<Rightarrow> heap \<Rightarrow> addr \<Rightarrow> string option \<Rightarrow> bool \<Rightarrow> addr list \<Rightarrow> addr list \<Rightarrow> bool
     \<Rightarrow> loop_result" where
  "updateLoop cmp h newComponentNode componentId compareUpdate [] componentConditions found =
     Finished componentConditions found"
| "updateLoop cmp h newComponentNode componentId compareUpdate (componentNode # rest)
     componentConditions found =
     (case deref h componentNode of
        Some (Component i c) \<Rightarrow>
          if i = componentId
          then
            if compareUpdate \<and>
               cmp h (simplifyCondition h c)
                     (simplifyCondition h (condition_of h newComponentNode)) True
            then ReturnOriginal
            else updateLoop cmp h newComponentNode componentId compareUpdate rest
                   (componentConditions @ [newComponentNode]) True
          else updateLoop cmp h newComponentNode componentId compareUpdate rest
                 (componentConditions @ [componentNode]) found
      | _ \<Rightarrow> Threw InvalidComponentStructure)"

definition updateComponentCondition ::
  "comparator \<Rightarrow> heap \<Rightarrow> ref \<Rightarrow> ref \<Rightarrow> string option \<Rightarrow> bool \<Rightarrow> heap \<times> (error + ref)" where
  "updateComponentCondition cmp h compositeCondition componentCondition componentId compareUpdate =
     (let (newComponentNode, h1) = component componentId h;
          h2 = set_condition newComponentNode componentCondition h1
      in case compositeCondition of
           None \<Rightarrow>
             (let (newCondition, h3) = condition ''and'' h2;
                  h4 = set_operands newCondition [newComponentNode] h3
              in (h4, Inr (Some newCondition)))
         | Some root \<Rightarrow>
             if \<not> isLogicalCondition h2 compositeCondition
             then (h2, Inl InvalidCurrentCondition)
             else
               (case updateLoop cmp h2 newComponentNode componentId compareUpdate
                       (operands_of h2 root) [] False of
                  Threw e \<Rightarrow> (h2, Inl e)
                | ReturnOriginal \<Rightarrow> (h2, Inr compositeCondition)
                | Finished componentConditions found \<Rightarrow>
                    (let componentConditions' =
                           (if \<not> found then componentConditions @ [newComponentNode]
                            else componentConditions);
                         (newCondition, h3) = condition (name_of h2 root) h2;
                         h4 = set_operands newCondition componentConditions' h3
                     in (h4, Inr (Some newCondition)))))"

section \<open>compareConditions\<close>

text \<open>
  Modelled from the spec: \<^verbatim>\<open>compareConditions(a, b, treatEmptyAsEqual)\<close>, which the
  source imports from a module that is not part of it. The spec: two nulls are equal; a null
  and a non-null are equal only when \<^verbatim>\<open>treatEmptyAsEqual\<close> is true and the non-null side
  canonicalizes to the empty representation; two Conditions are equal iff they have the same
  name, the same operand count and pairwise equal operands in order; two Component markers
  are equal iff they have the same id and equal conditions; two Value nodes are equal iff
  they have the same scalar type and equal values; two Values nodes are equal iff they have
  the same scalar type and equal elements in order; nodes of different kinds are not equal.
  The spec does not spell out the case of two Field nodes; node identity being structural,
  they are compared by name.

  The comparator descends through the store. Filter expressions are trees, so the cells of a
  store can be listed with every cell after the cells it refers to (\<open>heapOk\<close> below); the
  comparator follows a reference only to an earlier cell, which makes the recursion
  terminate, and answers \<open>False\<close> at any other reference.
\<close>

definition below :: "addr \<Rightarrow> ref \<Rightarrow> bool" where
  "below a r = (case r of None \<Rightarrow> True | Some x \<Rightarrow> x < a)"

function compareConditions :: "heap \<Rightarrow> ref \<Rightarrow> ref \<Rightarrow> bool \<Rightarrow> bool" where
  "compareConditions h None None t = True"
| "compareConditions h None (Some b) t = (t \<and> simplifyCondition h (Some b) = None)"
| "compareConditions h (Some a) None t = (t \<and> simplifyCondition h (Some a) = None)"
| "compareConditions h (Some a) (Some b) t =
     (case (deref h a, deref h b) of
        (Some (Field n1), Some (Field n2)) \<Rightarrow> n1 = n2
      | (Some (Value s1 v1 m1), Some (Value s2 v2 m2)) \<Rightarrow> s1 = s2 \<and> v1 = v2
      | (Some (Values s1 vs1), Some (Values s2 vs2)) \<Rightarrow> s1 = s2 \<and> vs1 = vs2
      | (Some (Condition n1 ops1), Some (Condition n2 ops2)) \<Rightarrow>
          n1 = n2 \<and> length ops1 = length ops2 \<and>
          list_all
            (\<lambda>(x, y). if x < a \<and> y < b then compareConditions h (Some x) (Some y) t else False)
            (zip ops1 ops2)
      | (Some (Component i1 c1), Some (Component i2 c2)) \<Rightarrow>
          i1 = i2 \<and> (if below a c1 \<and> below b c2 then compareConditions h c1 c2 t else False)
      | _ \<Rightarrow> False)"
  by pat_completeness auto
termination
  by (relation "measure (\<lambda>(h, ra, rb, t). case ra of None \<Rightarrow> 0 | Some a \<Rightarrow> Suc a)")
     (auto simp: below_def split: option.splits)

text \<open>
  The equations of the comparator unfold a recursive call inside the test on each pair of
  operands; they are applied on request only.
\<close>

declare compareConditions.simps [simp del]

section \<open>Predicates of the specification\<close>

text \<open>The type test \<^verbatim>\<open>node.type === Type.COMPONENT\<close> and the read \<^verbatim>\<open>node.id\<close>.\<close>

definition isComponent :: "heap \<Rightarrow> addr \<Rightarrow> bool" where
  "isComponent h a = (case deref h a of Some (Component i c) \<Rightarrow> True | _ \<Rightarrow> False)"

definition id_of :: "heap \<Rightarrow> addr \<Rightarrow> string option" where
  "id_of h a = (case deref h a of Some (Component i c) \<Rightarrow> i | _ \<Rightarrow> None)"

text \<open>
  The operand \<open>a\<close> of the composite carries the id under update, and the comparator reports
  its simplified condition equal to the simplified condition of the new marker.
\<close>

definition unchanged :: "comparator \<Rightarrow> heap \<Rightarrow> addr \<Rightarrow> string option \<Rightarrow> addr \<Rightarrow> bool" where
  "unchanged cmp h new cid a =
     (id_of h a = cid \<and>
      cmp h (simplifyCondition h (condition_of h a)) (simplifyCondition h (condition_of h new)) True)"

text \<open>The operand list with every marker of the given id replaced by the new marker.\<close>

definition replaced :: "heap \<Rightarrow> addr \<Rightarrow> string option \<Rightarrow> addr list \<Rightarrow> addr list" where
  "replaced h new cid ops = map (\<lambda>a. if id_of h a = cid then new else a) ops"

text \<open>
  The node at \<open>a\<close> is a Condition named "and" whose every operand is a Component marker
  with id \<^verbatim>\<open>null\<close>.
\<close>

definition allAnonymous :: "heap \<Rightarrow> addr \<Rightarrow> bool" where
  "allAnonymous h a =
     (case deref h a of
        Some (Condition name ops) \<Rightarrow>
          name = ''and'' \<and> (\<forall>x\<in>set ops. isComponent h x \<and> id_of h x = None)
      | _ \<Rightarrow> False)"

text \<open>
  The composite invariant: \<^verbatim>\<open>null\<close>, or a Condition named "and" whose operands are
  exclusively Component markers with pairwise distinct ids.
\<close>

definition compositeInvariant :: "heap \<Rightarrow> ref \<Rightarrow> bool" where
  "compositeInvariant h r =
     (case r of
        None \<Rightarrow> True
      | Some a \<Rightarrow>
         (case deref h a of
            Some (Condition name ops) \<Rightarrow>
              name = ''and'' \<and> (\<forall>x\<in>set ops. isComponent h x) \<and> distinct (map (id_of h) ops)
          | _ \<Rightarrow> False))"

text \<open>
  A store is tree-shaped when every cell refers to earlier cells only: the operands of a
  Condition and the condition of a Component marker lie below the cell itself.
\<close>

definition refsBelow :: "addr \<Rightarrow> node \<Rightarrow> bool" where
  "refsBelow a n =
     (case n of
        Condition name ops \<Rightarrow> list_all (\<lambda>x. x < a) ops
      | Component i c \<Rightarrow> below a c
      | _ \<Rightarrow> True)"

fun heapOkFrom :: "addr \<Rightarrow> heap \<Rightarrow> bool" where
  "heapOkFrom a [] = True"
| "heapOkFrom a (n # rest) = (refsBelow a n \<and> heapOkFrom (Suc a) rest)"

definition heapOk :: "heap \<Rightarrow> bool" where
  "heapOk h = heapOkFrom 0 h"

section \<open>Store lemmas\<close>

lemma deref_append_old: "a < length h \<Longrightarrow> deref (h @ e) a = deref h a"
  by (simp add: deref_def nth_append)

lemma deref_append_new: "deref (h @ x # e) (length h) = Some x"
  by (simp add: deref_def)

lemma deref_Some_less: "deref h a = Some x \<Longrightarrow> a < length h"
  by (simp add: deref_def split: if_splits)

lemma deref_append_Some: "deref h a = Some x \<Longrightarrow> deref (h @ e) a = Some x"
  by (simp add: deref_def nth_append split: if_splits)

lemma new_marker: "set_condition (length h) c (h @ [Component i None]) = h @ [Component i c]"
  by (simp add: set_condition_def deref_append_new)

lemma new_condition: "set_operands (length h) ops (h @ [Condition n []]) = h @ [Condition n ops]"
  by (simp add: set_operands_def deref_append_new)

lemma update_null:
  "updateComponentCondition cmp h None p cid cu =
     (h @ [Component cid p, Condition ''and'' [length h]], Inr (Some (Suc (length h))))"
proof -
  have "set_operands (length (h @ [Component cid p])) [length h]
          ((h @ [Component cid p]) @ [Condition ''and'' []]) =
        (h @ [Component cid p]) @ [Condition ''and'' [length h]]"
    by (rule new_condition)
  then show ?thesis
    by (simp add: updateComponentCondition_def component_def condition_def new_marker)
qed

section \<open>Lemmas about the merge\<close>

lemma isComponent_append: "isComponent h a \<Longrightarrow> isComponent (h @ e) a"
  by (auto simp: isComponent_def deref_append_Some split: option.splits node.splits)

lemma id_of_append: "isComponent h a \<Longrightarrow> id_of (h @ e) a = id_of h a"
  by (auto simp: isComponent_def id_of_def deref_append_Some split: option.splits node.splits)

lemma condition_of_append: "isComponent h a \<Longrightarrow> condition_of (h @ e) a = condition_of h a"
  by (auto simp: isComponent_def condition_of_def deref_append_Some split: option.splits node.splits)

lemma replaced_append:
  "\<forall>a\<in>set ops. isComponent h a \<Longrightarrow> replaced (h @ e) new cid ops = replaced h new cid ops"
  by (simp add: replaced_def id_of_append)

lemma condition_of_new: "condition_of (h @ [Component cid p]) (length h) = p"
  by (simp add: condition_of_def deref_append_new)

lemma id_of_new: "id_of (h @ Component cid p # e) (length h) = cid"
  by (simp add: id_of_def deref_append_new)

lemma isComponent_new: "isComponent (h @ Component cid p # e) (length h)"
  by (simp add: isComponent_def deref_append_new)

lemma logical_append:
  "deref h root = Some (Condition name ops) \<Longrightarrow> name = ''and'' \<or> name = ''or'' \<Longrightarrow>
   isLogicalCondition (h @ e) (Some root)"
  by (auto simp: isLogicalCondition_def deref_append_Some)

lemma not_logical_append:
  "\<not> isLogicalCondition h (Some root) \<Longrightarrow> deref h root \<noteq> None \<Longrightarrow>
   \<not> isLogicalCondition (h @ e) (Some root)"
  by (auto simp: isLogicalCondition_def deref_append_Some split: option.splits node.splits)

lemma operands_of_append:
  "deref h root = Some (Condition name ops) \<Longrightarrow> operands_of (h @ e) root = ops"
  by (simp add: operands_of_def deref_append_Some)

lemma name_of_append:
  "deref h root = Some (Condition name ops) \<Longrightarrow> name_of (h @ e) root = name"
  by (simp add: name_of_def deref_append_Some)

lemma simplifyLoop_iff:
  "simplifyLoop h ops \<longleftrightarrow> (\<forall>x\<in>set ops. isComponent h x \<and> id_of h x = None)"
  by (induction ops) (auto simp: isComponent_def id_of_def split: option.splits node.splits)

lemma update_nonnull:
  "updateComponentCondition cmp h (Some root) p cid cu =
     (let h2 = h @ [Component cid p] in
      if \<not> isLogicalCondition h2 (Some root) then (h2, Inl InvalidCurrentCondition)
      else
        (case updateLoop cmp h2 (length h) cid cu (operands_of h2 root) [] False of
           Threw e \<Rightarrow> (h2, Inl e)
         | ReturnOriginal \<Rightarrow> (h2, Inr (Some root))
         | Finished cs found \<Rightarrow>
             (h2 @ [Condition (name_of h2 root) (if found then cs else cs @ [length h])],
              Inr (Some (Suc (length h))))))"
proof -
  have "\<And>n ops. set_operands (length (h @ [Component cid p])) ops
          ((h @ [Component cid p]) @ [Condition n []]) =
        (h @ [Component cid p]) @ [Condition n ops]"
    by (rule new_condition)
  then show ?thesis
    by (simp add: updateComponentCondition_def component_def condition_def new_marker Let_def
        split: loop_result.split)
qed

lemma loop_prefix:
  "\<forall>a\<in>set pre. isComponent h a \<Longrightarrow>
   updateLoop cmp h new cid cu (pre @ rest) acc found =
     (if cu \<and> (\<exists>a\<in>set pre. unchanged cmp h new cid a) then ReturnOriginal
      else updateLoop cmp h new cid cu rest (acc @ replaced h new cid pre)
             (found \<or> (\<exists>a\<in>set pre. id_of h a = cid)))"
proof (induction pre arbitrary: acc found)
  case Nil
  show ?case by (simp add: replaced_def)
next
  case (Cons x xs)
  from Cons.prems obtain i c where x: "deref h x = Some (Component i c)"
    by (auto simp: isComponent_def split: option.splits node.splits)
  have xs: "\<forall>a\<in>set xs. isComponent h a" using Cons.prems by simp
  show ?case
    using x Cons.IH [OF xs]
    by (auto simp: unchanged_def id_of_def condition_of_def replaced_def)
qed

lemma loop_all_components:
  assumes "\<forall>a\<in>set ops. isComponent h a"
  shows "updateLoop cmp h new cid cu ops acc found =
     (if cu \<and> (\<exists>a\<in>set ops. unchanged cmp h new cid a) then ReturnOriginal
      else Finished (acc @ replaced h new cid ops) (found \<or> (\<exists>a\<in>set ops. id_of h a = cid)))"
  using loop_prefix [OF assms, of cmp new cid cu "[]" acc found] by simp

lemma unchanged_new:
  "isComponent h a \<Longrightarrow>
   unchanged cmp (h @ [Component cid p]) (length h) cid a \<longleftrightarrow>
     (id_of h a = cid \<and>
      cmp (h @ [Component cid p]) (simplifyCondition (h @ [Component cid p]) (condition_of h a))
        (simplifyCondition (h @ [Component cid p]) p) True)"
  by (simp add: unchanged_def id_of_append condition_of_append condition_of_new)

lemma update_valid_composite:
  assumes root: "deref h root = Some (Condition name ops)"
    and name: "name = ''and'' \<or> name = ''or''"
    and ops: "\<forall>a\<in>set ops. isComponent h a"
  shows "updateComponentCondition cmp h (Some root) p cid cu =
     (if cu \<and> (\<exists>a\<in>set ops. id_of h a = cid \<and>
               cmp (h @ [Component cid p])
                 (simplifyCondition (h @ [Component cid p]) (condition_of h a))
                 (simplifyCondition (h @ [Component cid p]) p) True)
      then (h @ [Component cid p], Inr (Some root))
      else (h @ [Component cid p,
                 Condition name
                   (if \<exists>a\<in>set ops. id_of h a = cid then replaced h (length h) cid ops
                    else ops @ [length h])],
            Inr (Some (Suc (length h)))))"
proof -
  let ?h2 = "h @ [Component cid p]"
  have ops2: "\<forall>a\<in>set ops. isComponent ?h2 a"
    using ops by (simp add: isComponent_append)
  have u: "(\<exists>a\<in>set ops. unchanged cmp ?h2 (length h) cid a) \<longleftrightarrow>
     (\<exists>a\<in>set ops. id_of h a = cid \<and>
               cmp ?h2 (simplifyCondition ?h2 (condition_of h a)) (simplifyCondition ?h2 p) True)"
    using ops by (auto simp: unchanged_new)
  have i: "(\<exists>a\<in>set ops. id_of ?h2 a = cid) \<longleftrightarrow> (\<exists>a\<in>set ops. id_of h a = cid)"
    using ops by (auto simp: id_of_append)
  have r: "replaced ?h2 (length h) cid ops = replaced h (length h) cid ops"
    using ops by (rule replaced_append)
  have loop: "updateLoop cmp ?h2 (length h) cid cu ops [] False =
     (if cu \<and> (\<exists>a\<in>set ops. id_of h a = cid \<and>
               cmp ?h2 (simplifyCondition ?h2 (condition_of h a)) (simplifyCondition ?h2 p) True)
      then ReturnOriginal
      else Finished (replaced h (length h) cid ops) (\<exists>a\<in>set ops. id_of h a = cid))"
    unfolding loop_all_components [OF ops2] u i r by simp
  show ?thesis
  proof (cases "\<exists>a\<in>set ops. id_of h a = cid")
    case True
    then show ?thesis
      using logical_append [OF root name] operands_of_append [OF root] name_of_append [OF root]
      by (simp add: update_nonnull Let_def loop)
  next
    case False
    then have "replaced h (length h) cid ops = ops"
      by (simp add: replaced_def map_idI)
    with False show ?thesis
      using logical_append [OF root name] operands_of_append [OF root] name_of_append [OF root]
      by (simp add: update_nonnull Let_def loop)
  qed
qed

lemma update_extends:
  "\<exists>e. fst (updateComponentCondition cmp h C p cid cu) = h @ e \<and>
       (\<forall>r. snd (updateComponentCondition cmp h C p cid cu) = Inr r \<longrightarrow>
          r = C \<or> (\<exists>n ops. r = Some (Suc (length h)) \<and> e = [Component cid p, Condition n ops]))"
proof (cases C)
  case None
  then show ?thesis by (simp add: update_null)
next
  case (Some root)
  then show ?thesis
    by (simp add: update_nonnull Let_def split: loop_result.split)
qed

lemma ids_replaced:
  assumes "\<forall>a\<in>set ops. isComponent h a"
  shows "map (id_of (h @ Component cid p # e)) (replaced h (length h) cid ops) = map (id_of h) ops"
  using assms by (induction ops) (auto simp: replaced_def id_of_new id_of_append)

lemma components_replaced:
  assumes "\<forall>a\<in>set ops. isComponent h a"
  shows "\<forall>a\<in>set (replaced h (length h) cid ops). isComponent (h @ Component cid p # e) a"
  using assms by (auto simp: replaced_def isComponent_new isComponent_append)

section \<open>The comparator on tree-shaped stores\<close>

lemma heapOkFrom_iff:
  "heapOkFrom k h \<longleftrightarrow> (\<forall>i<length h. refsBelow (k + i) (h ! i))"
proof (induction h arbitrary: k)
  case Nil
  show ?case by simp
next
  case (Cons n rest)
  show ?case
    by (simp add: Cons.IH All_less_Suc2 del: All_less_Suc)
qed

lemma heapOk_nth: "heapOk h \<Longrightarrow> a < length h \<Longrightarrow> refsBelow a (h ! a)"
  by (simp add: heapOk_def heapOkFrom_iff)

lemma heapOk_snoc: "heapOk (h @ [x]) \<longleftrightarrow> heapOk h \<and> refsBelow (length h) x"
  by (auto simp: heapOk_def heapOkFrom_iff nth_append less_Suc_eq)

lemma below_mono: "below a r \<Longrightarrow> a \<le> b \<Longrightarrow> below b r"
  by (auto simp: below_def split: option.splits)

lemma heapOk_operands:
  "heapOk h \<Longrightarrow> deref h a = Some (Condition n ops) \<Longrightarrow> x \<in> set ops \<Longrightarrow> x < a"
  using heapOk_nth [of h a]
  by (auto simp: deref_def refsBelow_def list_all_iff split: if_splits)

lemma heapOk_condition:
  "heapOk h \<Longrightarrow> deref h a = Some (Component i c) \<Longrightarrow> below a c"
  using heapOk_nth [of h a]
  by (auto simp: deref_def refsBelow_def split: if_splits)

lemma simplifyLoop_ext:
  "\<forall>x\<in>set ops. x < length h \<Longrightarrow> simplifyLoop (h @ e) ops = simplifyLoop h ops"
  by (induction ops) (auto simp: deref_append_old split: option.splits node.splits)

lemma simplify_ext:
  assumes "heapOk h" "below (length h) r"
  shows "simplifyCondition (h @ e) r = simplifyCondition h r"
proof (cases r)
  case None
  then show ?thesis by (simp add: simplifyCondition_def)
next
  case (Some a)
  with assms(2) have a: "a < length h" by (simp add: below_def)
  then have d: "deref (h @ e) a = deref h a" by (rule deref_append_old)
  have loop: "simplifyLoop (h @ e) ops = simplifyLoop h ops"
    if "deref h a = Some (Condition n ops)" for n ops
    using heapOk_operands [OF assms(1) that] a by (intro simplifyLoop_ext) force
  show ?thesis
  proof (cases "deref h a")
    case None
    then show ?thesis by (simp add: Some simplifyCondition_def d)
  next
    case (Some n)
    then show ?thesis
      using loop by (cases n) (simp_all add: \<open>r = Some a\<close> simplifyCondition_def d)
  qed
qed

lemma simplify_below: "below n r \<Longrightarrow> below n (simplifyCondition h r)"
  by (auto simp: simplifyCondition_def below_def split: option.splits node.splits)

lemma compare_refl_addr:
  "heapOk h \<Longrightarrow> a < length h \<Longrightarrow> compareConditions h (Some a) (Some a) t"
proof (induction a rule: less_induct)
  case (less a)
  have d: "deref h a = Some (h ! a)" using less.prems(2) by (simp add: deref_def)
  show ?case
  proof (cases "h ! a")
    case (Condition n ops)
    have "x < a \<and> compareConditions h (Some x) (Some x) t" if "x \<in> set ops" for x
    proof -
      have "x < a" using heapOk_operands [OF less.prems(1) _ that] d Condition by simp
      then show ?thesis using less.IH [of x] less.prems by simp
    qed
    then have "list_all (\<lambda>(x, y). if x < a \<and> y < a then compareConditions h (Some x) (Some y) t else False)
                 (zip ops ops)"
      by (auto simp: list_all_iff zip_same)
    then show ?thesis using d Condition by (simp add: compareConditions.simps)
  next
    case (Component i c)
    have b: "below a c" using heapOk_condition [OF less.prems(1)] d Component by simp
    have "compareConditions h c c t"
    proof (cases c)
      case None
      then show ?thesis by (simp add: compareConditions.simps)
    next
      case (Some x)
      with b have "x < a" by (simp add: below_def)
      then show ?thesis using less.IH [of x] less.prems Some by simp
    qed
    then show ?thesis using d Component b by (simp add: compareConditions.simps)
  qed (use d in \<open>simp_all add: compareConditions.simps\<close>)
qed

lemma compare_refl:
  "heapOk h \<Longrightarrow> below (length h) r \<Longrightarrow> compareConditions h r r t"
  by (cases r) (simp_all add: compare_refl_addr below_def compareConditions.simps(1))

lemma compare_ext_addr:
  assumes ok: "heapOk h"
  shows "a < length h \<Longrightarrow> b < length h \<Longrightarrow>
         compareConditions (h @ e) (Some a) (Some b) t = compareConditions h (Some a) (Some b) t"
proof (induction a arbitrary: b rule: less_induct)
  case (less a)
  have da: "deref (h @ e) a = Some (h ! a)" "deref h a = Some (h ! a)"
    using less.prems(1) by (simp_all add: deref_def nth_append)
  have db: "deref (h @ e) b = Some (h ! b)" "deref h b = Some (h ! b)"
    using less.prems(2) by (simp_all add: deref_def nth_append)
  have refs: "compareConditions (h @ e) c1 c2 t = compareConditions h c1 c2 t"
    if "below a c1" "below b c2" for c1 c2
  proof (cases c1)
    case None
    show ?thesis
    proof (cases c2)
      case None
      with \<open>c1 = None\<close> show ?thesis by (simp add: compareConditions.simps)
    next
      case (Some y)
      with that(2) less.prems(2) have "below (length h) (Some y)" by (simp add: below_def)
      then show ?thesis
        using \<open>c1 = None\<close> Some by (simp add: compareConditions.simps simplify_ext [OF ok])
    qed
  next
    case (Some x)
    with that(1) have x: "x < a" by (simp add: below_def)
    show ?thesis
    proof (cases c2)
      case None
      from x less.prems(1) have "below (length h) (Some x)" by (simp add: below_def)
      then show ?thesis
        using \<open>c1 = Some x\<close> None by (simp add: compareConditions.simps simplify_ext [OF ok])
    next
      case (Some y)
      with that(2) less.prems(2) have "y < length h" by (simp add: below_def)
      moreover from x less.prems(1) have "x < length h" by simp
      ultimately show ?thesis
        using less.IH [OF x] \<open>c1 = Some x\<close> Some by simp
    qed
  qed
  have ops: "list_all (\<lambda>(x, y). if x < a \<and> y < b
                 then compareConditions (h @ e) (Some x) (Some y) t else False) zs =
             list_all (\<lambda>(x, y). if x < a \<and> y < b
                 then compareConditions h (Some x) (Some y) t else False) zs" for zs
  proof (rule list_all_cong [OF refl])
    fix z assume "z \<in> set zs"
    show "(case z of (x, y) \<Rightarrow> if x < a \<and> y < b
                 then compareConditions (h @ e) (Some x) (Some y) t else False) =
          (case z of (x, y) \<Rightarrow> if x < a \<and> y < b
                 then compareConditions h (Some x) (Some y) t else False)"
      using refs [of "Some (fst z)" "Some (snd z)"]
      by (cases z) (simp add: below_def)
  qed
  note unf = compareConditions.simps(4) [of "h @ e" a b t] compareConditions.simps(4) [of h a b t]
  show ?case
  proof (cases "h ! a")
    case (Condition n1 ops1)
    then show ?thesis
      unfolding unf da db by (cases "h ! b") (simp_all add: ops)
  next
    case (Component i1 c1)
    show ?thesis
    proof (cases "h ! b")
      case (Component i2 c2)
      show ?thesis
      proof (cases "below a c1 \<and> below b c2")
        case True
        then show ?thesis
          unfolding unf da db \<open>h ! a = Component i1 c1\<close> Component
          by (simp add: refs)
      next
        case False
        then show ?thesis
          unfolding unf da db \<open>h ! a = Component i1 c1\<close> Component
          by auto
      qed
    qed (simp_all add: unf da db Component)
  qed (cases "h ! b"; simp add: unf da db)+
qed

lemma compare_ext:
  assumes "heapOk h" "below (length h) r1" "below (length h) r2"
  shows "compareConditions (h @ e) r1 r2 t = compareConditions h r1 r2 t"
proof (cases r1)
  case None
  then show ?thesis
    using assms by (cases r2) (simp_all add: compareConditions.simps simplify_ext)
next
  case (Some a)
  then show ?thesis
    using assms
    by (cases r2) (simp_all add: compareConditions.simps(3) simplify_ext compare_ext_addr below_def)
qed

section \<open>Repeating an update\<close>

lemma loop_Finished:
  "updateLoop cmp h new cid cu ops acc found = Finished cs f \<Longrightarrow>
   (\<forall>a\<in>set ops. isComponent h a) \<and> cs = acc @ replaced h new cid ops \<and>
   (f \<longleftrightarrow> found \<or> (\<exists>a\<in>set ops. id_of h a = cid))"
proof (induction ops arbitrary: acc found)
  case Nil
  then show ?case by (simp add: replaced_def)
next
  case (Cons x xs)
  from Cons.prems obtain i c where x: "deref h x = Some (Component i c)"
    by (auto split: option.splits node.splits)
  show ?case
  proof (cases "i = cid")
    case True
    with Cons.prems x
    have "updateLoop cmp h new cid cu xs (acc @ [new]) True = Finished cs f"
      by (simp split: if_splits)
    from Cons.IH [OF this] show ?thesis
      using x True by (simp add: isComponent_def id_of_def replaced_def)
  next
    case False
    with Cons.prems x
    have "updateLoop cmp h new cid cu xs (acc @ [x]) found = Finished cs f"
      by simp
    from Cons.IH [OF this] show ?thesis
      using x False by (simp add: isComponent_def id_of_def replaced_def)
  qed
qed

lemma refl_ext:
  assumes "heapOk h" "below (length h) p"
  shows "compareConditions (h @ e) (simplifyCondition (h @ e) p) (simplifyCondition (h @ e) p) True"
proof -
  have b: "below (length h) (simplifyCondition h p)"
    using assms(2) by (rule simplify_below)
  have "compareConditions h (simplifyCondition h p) (simplifyCondition h p) True"
    using assms(1) b by (rule compare_refl)
  then show ?thesis
    by (simp add: simplify_ext [OF assms] compare_ext [OF assms(1) b b])
qed

lemma skip_mono:
  assumes ok: "heapOk h" and pv: "below (length h) p"
    and n1: "condition_of h n1 = p" and n2: "condition_of (h @ e) n2 = p"
  shows "updateLoop compareConditions h n1 cid True ops acc found = ReturnOriginal \<Longrightarrow>
         updateLoop compareConditions (h @ e) n2 cid True ops acc' found' = ReturnOriginal"
proof (induction ops arbitrary: acc found acc' found')
  case Nil
  then show ?case by simp
next
  case (Cons x xs)
  from Cons.prems obtain i c where x: "deref h x = Some (Component i c)"
    by (auto split: option.splits node.splits)
  then have x2: "deref (h @ e) x = Some (Component i c)"
    by (rule deref_append_Some)
  have "below x c" using ok x by (rule heapOk_condition)
  moreover have "x < length h" using x by (rule deref_Some_less)
  ultimately have cv: "below (length h) c" by (simp add: below_mono)
  have eq: "compareConditions (h @ e) (simplifyCondition (h @ e) c) (simplifyCondition (h @ e) p) True =
            compareConditions h (simplifyCondition h c) (simplifyCondition h p) True"
    by (simp add: simplify_ext [OF ok cv] simplify_ext [OF ok pv]
        compare_ext [OF ok simplify_below [OF cv] simplify_below [OF pv]])
  show ?case
  proof (cases "i = cid")
    case True
    show ?thesis
    proof (cases "compareConditions h (simplifyCondition h c) (simplifyCondition h p) True")
      case True
      then show ?thesis using x2 \<open>i = cid\<close> eq by (simp add: n2)
    next
      case False
      with Cons.prems x \<open>i = cid\<close>
      have "updateLoop compareConditions h n1 cid True xs (acc @ [n1]) True = ReturnOriginal"
        by (simp add: n1)
      from Cons.IH [OF this] show ?thesis
        using x2 \<open>i = cid\<close> eq False by (simp add: n2)
    qed
  next
    case False
    with Cons.prems x
    have "updateLoop compareConditions h n1 cid True xs (acc @ [x]) found = ReturnOriginal"
      by simp
    from Cons.IH [OF this] show ?thesis
      using x2 False by simp
  qed
qed

lemma logical_ext: "isLogicalCondition h r \<Longrightarrow> isLogicalCondition (h @ e) r"
  by (auto simp: isLogicalCondition_def deref_append_Some split: option.splits node.splits)

lemma logical_deref:
  "isLogicalCondition h (Some root) \<Longrightarrow>
   \<exists>ops. deref h root = Some (Condition (name_of h root) ops) \<and> operands_of h root = ops \<and>
     (name_of h root = ''and'' \<or> name_of h root = ''or'')"
  by (auto simp: isLogicalCondition_def name_of_def operands_of_def split: option.splits node.splits)

lemma update_skips:
  assumes "isLogicalCondition (h @ [Component cid p]) (Some root)"
    and "\<forall>a\<in>set (operands_of (h @ [Component cid p]) root). isComponent (h @ [Component cid p]) a"
    and "\<exists>a\<in>set (operands_of (h @ [Component cid p]) root).
           unchanged cmp (h @ [Component cid p]) (length h) cid a"
  shows "updateComponentCondition cmp h (Some root) p cid True =
           (h @ [Component cid p], Inr (Some root))"
  using assms by (simp add: update_nonnull Let_def loop_all_components)

lemma unchanged_refl:
  assumes ok: "heapOk h" and pv: "below (length h) p"
  shows "unchanged compareConditions (h @ Component cid p # e @ [Component cid p])
           (Suc (length h + length e)) cid (length h)"
proof -
  let ?h2 = "h @ Component cid p # e @ [Component cid p]"
  have 1: "deref ?h2 (length h) = Some (Component cid p)"
    by (rule deref_append_new)
  have "deref ((h @ Component cid p # e) @ [Component cid p]) (length (h @ Component cid p # e)) =
          Some (Component cid p)"
    by (rule deref_append_new)
  then have 2: "deref ?h2 (Suc (length h + length e)) = Some (Component cid p)"
    by simp
  show ?thesis
    using refl_ext [OF ok pv, of "Component cid p # e @ [Component cid p]"]
    by (simp add: unchanged_def id_of_def condition_of_def 1 2)
qed

lemma new_in_rebuilt:
  "length h \<in> set (if \<exists>a\<in>set ops. id_of h' a = cid then replaced h' (length h) cid ops
                     else replaced h' (length h) cid ops @ [length h])"
  by (auto simp: replaced_def)

lemma rebuilt_components:
  assumes "\<forall>a\<in>set ops. isComponent h' a" "isComponent h' n"
  shows "\<forall>a\<in>set (if f then replaced h' n cid ops else replaced h' n cid ops @ [n]).
           isComponent (h' @ e) a"
  using assms by (auto simp: replaced_def isComponent_append)

section \<open>The claims\<close>

subsection \<open>The short-circuit returns the composite itself\<close>

text \<open>
  C1. Let the composite be a logical Condition one of whose operands is a Component marker
  with the id under update, every operand before it being a Component marker. If
  \<^verbatim>\<open>compareUpdate\<close> is true and the comparator (with \<^verbatim>\<open>treatEmptyAsEqual = true\<close>)
  reports the simplified condition of that marker equal to the simplified new component
  condition, then \<^verbatim>\<open>updateComponentCondition\<close> returns the very reference it was given:
  the same object, not a copy. The comparator runs on the store that already holds the new
  marker.
\<close>

theorem short_circuit_returns_original:
  assumes root: "deref h root = Some (Condition name (pre @ m # post))"
    and name: "name = ''and'' \<or> name = ''or''"
    and pre: "\<forall>a\<in>set pre. isComponent h a"
    and m: "deref h m = Some (Component cid c)"
    and eq: "cmp (h @ [Component cid p]) (simplifyCondition (h @ [Component cid p]) c)
               (simplifyCondition (h @ [Component cid p]) p) True"
  shows "updateComponentCondition cmp h (Some root) p cid True =
           (h @ [Component cid p], Inr (Some root))"
proof -
  let ?h2 = "h @ [Component cid p]"
  have pre2: "\<forall>a\<in>set pre. isComponent ?h2 a"
    using pre by (simp add: isComponent_append)
  have m2: "deref ?h2 m = Some (Component cid c)"
    using m by (rule deref_append_Some)
  have "updateLoop cmp ?h2 (length h) cid True (m # post) acc found = ReturnOriginal" for acc found
    using m2 eq by (simp add: condition_of_new)
  then have "updateLoop cmp ?h2 (length h) cid True (pre @ m # post) [] False = ReturnOriginal"
    by (simp add: loop_prefix [OF pre2])
  then show ?thesis
    using logical_append [OF root name] operands_of_append [OF root]
    by (simp add: update_nonnull)
qed

theorem short_circuit_returns_original_witness:
  "compareConditions
     ([Field ''age'', Component (Some ''a'') (Some 0), Condition ''and'' [1]] @
        [Component (Some ''a'') (Some 0)])
     (simplifyCondition
        ([Field ''age'', Component (Some ''a'') (Some 0), Condition ''and'' [1]] @
           [Component (Some ''a'') (Some 0)]) (Some 0))
     (simplifyCondition
        ([Field ''age'', Component (Some ''a'') (Some 0), Condition ''and'' [1]] @
           [Component (Some ''a'') (Some 0)]) (Some 0)) True \<and>
   updateComponentCondition compareConditions
     [Field ''age'', Component (Some ''a'') (Some 0), Condition ''and'' [1]]
     (Some 2) (Some 0) (Some ''a'') True =
     ([Field ''age'', Component (Some ''a'') (Some 0), Condition ''and'' [1]] @
        [Component (Some ''a'') (Some 0)], Inr (Some 2))"
proof -
  let ?h = "[Field ''age'', Component (Some ''a'') (Some 0), Condition ''and'' [1]]"
  have root: "deref ?h 2 = Some (Condition ''and'' ([] @ 1 # []))"
    by (simp add: deref_def)
  have name: "''and'' = ''and'' \<or> ''and'' = ''or''"
    by simp
  have pre: "\<forall>a\<in>set []. isComponent ?h a"
    by simp
  have m: "deref ?h 1 = Some (Component (Some ''a'') (Some 0))"
    by (simp add: deref_def)
  have eq: "compareConditions (?h @ [Component (Some ''a'') (Some 0)])
              (simplifyCondition (?h @ [Component (Some ''a'') (Some 0)]) (Some 0))
              (simplifyCondition (?h @ [Component (Some ''a'') (Some 0)]) (Some 0)) True"
    by (simp add: compareConditions.simps simplifyCondition_def deref_def)
  show ?thesis
    using root name pre m eq
      short_circuit_returns_original [where h = ?h and root = 2 and name = "''and''"
        and pre = "[]" and m = 1 and post = "[]" and cid = "Some ''a''" and c = "Some 0"
        and cmp = compareConditions and p = "Some 0"]
    by simp
qed

subsection \<open>The composite invariant is preserved\<close>

text \<open>
  C2. If the composite given to \<^verbatim>\<open>updateComponentCondition\<close> satisfies the composite
  invariant (it is \<^verbatim>\<open>null\<close>, or a Condition named "and" whose operands are exclusively
  Component markers with pairwise distinct ids), then for every component condition,
  component id, flag and comparator the call returns, and the tree it returns satisfies
  the invariant in the resulting store.
\<close>

theorem composite_invariant_preserved:
  assumes inv: "compositeInvariant h C"
  shows "\<exists>h' r. updateComponentCondition cmp h C p cid cu = (h', Inr r) \<and> compositeInvariant h' r"
proof (cases C)
  case None
  have "compositeInvariant (h @ [Component cid p, Condition ''and'' [length h]]) (Some (Suc (length h)))"
    by (simp add: compositeInvariant_def deref_def nth_append isComponent_def)
  with None show ?thesis by (simp add: update_null)
next
  case (Some root)
  with inv obtain ops where root: "deref h root = Some (Condition ''and'' ops)"
    and ops: "\<forall>a\<in>set ops. isComponent h a"
    and dist: "distinct (map (id_of h) ops)"
    by (auto simp: compositeInvariant_def split: option.splits node.splits)
  have name: "''and'' = ''and'' \<or> ''and'' = ''or''" by simp
  let ?h2 = "h @ [Component cid p]"
  let ?ops' = "if \<exists>a\<in>set ops. id_of h a = cid then replaced h (length h) cid ops
               else ops @ [length h]"
  let ?h3 = "h @ [Component cid p, Condition ''and'' ?ops']"
  have skip: "compositeInvariant ?h2 (Some root)"
    using root ops dist
    by (simp add: compositeInvariant_def deref_append_Some isComponent_append id_of_append
        cong: map_cong)
  have d3: "deref ?h3 (Suc (length h)) = Some (Condition ''and'' ?ops')"
    by (simp add: deref_def nth_append)
  have c3: "\<forall>a\<in>set ?ops'. isComponent ?h3 a"
    using components_replaced [OF ops, of cid p] ops
    by (auto simp: isComponent_new isComponent_append)
  have i3: "distinct (map (id_of ?h3) ?ops')"
  proof (cases "\<exists>a\<in>set ops. id_of h a = cid")
    case True
    then show ?thesis using ids_replaced [OF ops, of cid p] dist by simp
  next
    case False
    let ?h = "h @ [Component cid p, Condition ''and'' (ops @ [length h])]"
    have "map (id_of ?h) ops = map (id_of h) ops"
      using ops by (simp add: id_of_append cong: map_cong)
    then have "map (id_of ?h) (ops @ [length h]) = map (id_of h) ops @ [cid]"
      by (simp only: map_append list.map id_of_new)
    moreover have "distinct (map (id_of h) ops @ [cid])"
      using dist False by auto
    ultimately have "distinct (map (id_of ?h) (ops @ [length h]))"
      by (simp only:)
    with False show ?thesis by (simp only: if_False)
  qed
  have rebuilt: "compositeInvariant ?h3 (Some (Suc (length h)))"
    unfolding compositeInvariant_def using d3 c3 i3 by simp
  show ?thesis
    unfolding Some update_valid_composite [OF root name ops]
    using skip rebuilt by simp
qed

theorem composite_invariant_preserved_witness:
  "compositeInvariant
     [Field ''age'', Component (Some ''a'') None, Component (Some ''b'') None,
      Condition ''and'' [1, 2]] (Some 3) \<and>
   (\<exists>h' r. updateComponentCondition compareConditions
       [Field ''age'', Component (Some ''a'') None, Component (Some ''b'') None,
        Condition ''and'' [1, 2]] (Some 3) (Some 0) (Some ''b'') True = (h', Inr r) \<and>
      compositeInvariant h' r)"
proof -
  have inv: "compositeInvariant
     [Field ''age'', Component (Some ''a'') None, Component (Some ''b'') None,
      Condition ''and'' [1, 2]] (Some 3)"
    by (simp add: compositeInvariant_def deref_def isComponent_def id_of_def)
  show ?thesis
    using inv composite_invariant_preserved [OF inv] by simp
qed

subsection \<open>Structure errors\<close>

text \<open>
  C3, as amended. For a composite that is an object of the store: if it is not a logical
  Condition (a Condition named "and" or "or"), the call fails with the error for an invalid
  current condition. If it is a logical Condition and its first operand that is not a
  Component marker is \<open>bad\<close>, the call fails with the error for an invalid component
  structure, unless \<^verbatim>\<open>compareUpdate\<close> is true and one of the markers before \<open>bad\<close>
  carries the id under update with a condition that the comparator reports unchanged: then
  the loop has already returned the composite itself, and no error is raised.
\<close>

theorem structure_errors:
  "(deref h root \<noteq> None \<and> \<not> isLogicalCondition h (Some root) \<longrightarrow>
      updateComponentCondition cmp h (Some root) p cid cu =
        (h @ [Component cid p], Inl InvalidCurrentCondition)) \<and>
   (deref h root = Some (Condition name (pre @ bad # post)) \<and> (name = ''and'' \<or> name = ''or'') \<and>
    (\<forall>a\<in>set pre. isComponent h a) \<and> deref h bad \<noteq> None \<and> \<not> isComponent h bad \<longrightarrow>
      updateComponentCondition cmp h (Some root) p cid cu =
        (h @ [Component cid p],
         if cu \<and> (\<exists>a\<in>set pre. id_of h a = cid \<and>
               cmp (h @ [Component cid p])
                 (simplifyCondition (h @ [Component cid p]) (condition_of h a))
                 (simplifyCondition (h @ [Component cid p]) p) True)
         then Inr (Some root) else Inl InvalidComponentStructure))"
proof (intro conjI impI)
  assume "deref h root \<noteq> None \<and> \<not> isLogicalCondition h (Some root)"
  then have "\<not> isLogicalCondition (h @ [Component cid p]) (Some root)"
    by (simp add: not_logical_append)
  then show "updateComponentCondition cmp h (Some root) p cid cu =
        (h @ [Component cid p], Inl InvalidCurrentCondition)"
    by (simp add: update_nonnull Let_def)
next
  let ?h2 = "h @ [Component cid p]"
  assume a: "deref h root = Some (Condition name (pre @ bad # post)) \<and>
    (name = ''and'' \<or> name = ''or'') \<and>
    (\<forall>a\<in>set pre. isComponent h a) \<and> deref h bad \<noteq> None \<and> \<not> isComponent h bad"
  then have root: "deref h root = Some (Condition name (pre @ bad # post))"
    and name: "name = ''and'' \<or> name = ''or''"
    and pre: "\<forall>a\<in>set pre. isComponent h a"
    and bad: "deref h bad \<noteq> None" "\<not> isComponent h bad"
    by simp_all
  have pre2: "\<forall>a\<in>set pre. isComponent ?h2 a"
    using pre by (simp add: isComponent_append)
  from bad obtain x where x: "deref h bad = Some x" "\<forall>i c. x \<noteq> Component i c"
    by (auto simp: isComponent_def split: option.splits node.splits)
  then have bad2: "deref ?h2 bad = Some x"
    by (simp add: deref_append_Some)
  have "updateLoop cmp ?h2 (length h) cid cu (bad # post) acc found =
          Threw InvalidComponentStructure" for acc found
    using bad2 x(2) by (cases x) simp_all
  then have "updateLoop cmp ?h2 (length h) cid cu (pre @ bad # post) [] False =
     (if cu \<and> (\<exists>a\<in>set pre. unchanged cmp ?h2 (length h) cid a) then ReturnOriginal
      else Threw InvalidComponentStructure)"
    by (simp add: loop_prefix [OF pre2])
  moreover have "(\<exists>a\<in>set pre. unchanged cmp ?h2 (length h) cid a) \<longleftrightarrow>
     (\<exists>a\<in>set pre. id_of h a = cid \<and>
               cmp ?h2 (simplifyCondition ?h2 (condition_of h a)) (simplifyCondition ?h2 p) True)"
    using pre by (auto simp: unchanged_new)
  ultimately show "updateComponentCondition cmp h (Some root) p cid cu =
        (?h2,
         if cu \<and> (\<exists>a\<in>set pre. id_of h a = cid \<and>
               cmp ?h2 (simplifyCondition ?h2 (condition_of h a)) (simplifyCondition ?h2 p) True)
         then Inr (Some root) else Inl InvalidComponentStructure)"
    using logical_append [OF root name] operands_of_append [OF root]
    by (simp add: update_nonnull Let_def)
qed

theorem structure_errors_witness:
  "updateComponentCondition compareConditions [Field ''x''] (Some 0) None (Some ''id'') True =
     ([Field ''x''] @ [Component (Some ''id'') None], Inl InvalidCurrentCondition) \<and>
   updateComponentCondition compareConditions [Field ''x'', Condition ''or'' [0]] (Some 1) None
       (Some ''id'') True =
     ([Field ''x'', Condition ''or'' [0]] @ [Component (Some ''id'') None],
      Inl InvalidComponentStructure)"
proof -
  have a: "deref [Field ''x''] 0 \<noteq> None \<and> \<not> isLogicalCondition [Field ''x''] (Some 0)"
    by (simp add: deref_def isLogicalCondition_def)
  have b: "deref [Field ''x'', Condition ''or'' [0]] 1 = Some (Condition ''or'' ([] @ 0 # [])) \<and>
      (''or'' = ''and'' \<or> ''or'' = ''or'') \<and>
      (\<forall>a\<in>set []. isComponent [Field ''x'', Condition ''or'' [0]] a) \<and>
      deref [Field ''x'', Condition ''or'' [0]] 0 \<noteq> None \<and>
      \<not> isComponent [Field ''x'', Condition ''or'' [0]] 0"
    by (simp add: deref_def isComponent_def)
  show ?thesis
    using a b
      structure_errors [where h = "[Field ''x'']" and root = 0 and name = "''and''"
        and pre = "[]" and bad = 0 and post = "[]" and cmp = compareConditions and p = None
        and cid = "Some ''id''" and cu = True]
      structure_errors [where h = "[Field ''x'', Condition ''or'' [0]]" and root = 1
        and name = "''or''" and pre = "[]" and bad = 0 and post = "[]"
        and cmp = compareConditions and p = None and cid = "Some ''id''" and cu = True]
    by simp
qed

text \<open>
  C3 as stated fails: in the composite \<^verbatim>\<open>and(component("a", null), field("x"))\<close>
  the second operand is not a Component marker, yet updating "a" with \<^verbatim>\<open>null\<close> returns
  the composite itself, because the unchanged marker comes first.
\<close>

theorem structure_error_counterexample:
  "\<not> isComponent [Component (Some ''a'') None, Field ''x'', Condition ''and'' [0, 1]] 1 \<and>
   updateComponentCondition compareConditions
     [Component (Some ''a'') None, Field ''x'', Condition ''and'' [0, 1]] (Some 2) None
     (Some ''a'') True =
     ([Component (Some ''a'') None, Field ''x'', Condition ''and'' [0, 1]] @
        [Component (Some ''a'') None], Inr (Some 2))"
  by (simp add: update_nonnull Let_def isComponent_def isLogicalCondition_def operands_of_def
      condition_of_def simplifyCondition_def deref_def compareConditions.simps)

subsection \<open>Operand order\<close>

text \<open>
  C4. Let the composite be a logical Condition whose operands are Component markers, and
  let the update be a real change: \<^verbatim>\<open>compareUpdate\<close> is false, or the comparator reports
  no marker with the id under update unchanged. Then the result is a new Condition of the
  same name whose operand list is the old one with each marker of that id replaced, at its
  position, by the new marker, all other operands staying where and what they were; when no
  operand has the id, the operand list is the old one with the new marker appended.
\<close>

theorem operand_order_preserved:
  assumes "deref h root = Some (Condition name ops)"
    and "name = ''and'' \<or> name = ''or''"
    and "\<forall>a\<in>set ops. isComponent h a"
    and "cu \<longrightarrow> (\<forall>a\<in>set ops. id_of h a = cid \<longrightarrow>
            \<not> cmp (h @ [Component cid p])
                 (simplifyCondition (h @ [Component cid p]) (condition_of h a))
                 (simplifyCondition (h @ [Component cid p]) p) True)"
  shows "updateComponentCondition cmp h (Some root) p cid cu =
     (h @ [Component cid p,
           Condition name
             (if \<exists>a\<in>set ops. id_of h a = cid
              then map (\<lambda>a. if id_of h a = cid then length h else a) ops
              else ops @ [length h])],
      Inr (Some (Suc (length h))))"
  using assms(4) unfolding update_valid_composite [OF assms(1-3)] replaced_def by auto

theorem operand_order_preserved_witness:
  "updateComponentCondition compareConditions
     [Component (Some ''a'') None, Field ''age'', Component (Some ''b'') None,
      Condition ''and'' [0, 2]] (Some 3) (Some 1) (Some ''a'') True =
     ([Component (Some ''a'') None, Field ''age'', Component (Some ''b'') None,
       Condition ''and'' [0, 2]] @
        [Component (Some ''a'') (Some 1), Condition ''and'' [4, 2]], Inr (Some 5))"
proof -
  let ?h = "[Component (Some ''a'') None, Field ''age'', Component (Some ''b'') None,
             Condition ''and'' [0, 2]]"
  have root: "deref ?h 3 = Some (Condition ''and'' [0, 2])"
    by (simp add: deref_def)
  have name: "''and'' = ''and'' \<or> ''and'' = ''or''"
    by simp
  have ops: "\<forall>a\<in>set [0, 2]. isComponent ?h a"
    by (simp add: isComponent_def deref_def)
  have change: "True \<longrightarrow> (\<forall>a\<in>set [0, 2]. id_of ?h a = Some ''a'' \<longrightarrow>
            \<not> compareConditions (?h @ [Component (Some ''a'') (Some 1)])
                 (simplifyCondition (?h @ [Component (Some ''a'') (Some 1)]) (condition_of ?h a))
                 (simplifyCondition (?h @ [Component (Some ''a'') (Some 1)]) (Some 1)) True)"
    by (simp add: id_of_def condition_of_def simplifyCondition_def deref_def
        compareConditions.simps)
  have id1: "id_of ?h 0 = Some ''a''" and id2: "id_of ?h 2 = Some ''b''"
    by (simp_all add: id_of_def deref_def)
  show ?thesis
    using operand_order_preserved [where cmp = compareConditions and h = ?h and root = 3
        and name = "''and''" and ops = "[0, 2]" and cid = "Some ''a''" and p = "Some 1"
        and cu = True, OF root name ops change]
    by (simp add: id1 id2)
qed

subsection \<open>The first contribution to an empty composite\<close>

text \<open>
  C5. For the composite \<^verbatim>\<open>null\<close>, \<^verbatim>\<open>updateComponentCondition\<close> returns a Condition that
  did not exist before, named "and", with exactly one operand: a Component marker whose id
  is the given component id and whose condition is the given component condition. The
  result is the same for every comparator and for either value of \<^verbatim>\<open>compareUpdate\<close>: no
  comparison takes part in it.
\<close>

theorem update_null_composite:
  "\<exists>h' root marker.
     updateComponentCondition cmp h None p cid cu = (h', Inr (Some root)) \<and>
     deref h root = None \<and>
     deref h' root = Some (Condition ''and'' [marker]) \<and>
     deref h' marker = Some (Component cid p) \<and>
     (\<forall>cmp' cu'. updateComponentCondition cmp' h None p cid cu' = (h', Inr (Some root)))"
  by (simp add: update_null deref_def nth_append)

subsection \<open>simplifyCondition\<close>

text \<open>
  C6. For a node \<open>a\<close>, \<^verbatim>\<open>simplifyCondition\<close> returns \<^verbatim>\<open>null\<close> if and only if the node is
  a Condition named "and" whose every operand is a Component marker with id \<^verbatim>\<open>null\<close>; in
  every other case it returns its argument, and it returns \<^verbatim>\<open>null\<close> for \<^verbatim>\<open>null\<close>. The
  test reads the node and its direct operands only.
\<close>

theorem simplify_characterisation:
  "(simplifyCondition h (Some a) = None \<longleftrightarrow> allAnonymous h a) \<and>
   (\<not> allAnonymous h a \<longrightarrow> simplifyCondition h (Some a) = Some a) \<and>
   simplifyCondition h None = None"
  by (auto simp: simplifyCondition_def allAnonymous_def simplifyLoop_iff
      split: option.splits node.splits)

theorem simplify_characterisation_witness:
  "allAnonymous [Component None None, Condition ''and'' [0, 0]] 1 \<and>
   simplifyCondition [Component None None, Condition ''and'' [0, 0]] (Some 1) = None \<and>
   \<not> allAnonymous [Component (Some ''a'') None, Condition ''and'' [0]] 1 \<and>
   simplifyCondition [Component (Some ''a'') None, Condition ''and'' [0]] (Some 1) = Some 1"
proof -
  have a: "allAnonymous [Component None None, Condition ''and'' [0, 0]] 1"
    by (simp add: allAnonymous_def isComponent_def id_of_def deref_def)
  have b: "\<not> allAnonymous [Component (Some ''a'') None, Condition ''and'' [0]] 1"
    by (simp add: allAnonymous_def isComponent_def id_of_def deref_def)
  show ?thesis
    using a b
      simplify_characterisation [of "[Component None None, Condition ''and'' [0, 0]]" 1]
      simplify_characterisation [of "[Component (Some ''a'') None, Condition ''and'' [0]]" 1]
    by simp
qed

text \<open>
  C9. For a Condition named "and" with an empty operand list, \<^verbatim>\<open>simplifyCondition\<close>
  returns \<^verbatim>\<open>null\<close>: the loop over the operands finds nothing to object to.
\<close>

theorem simplify_empty_and:
  "deref h a = Some (Condition ''and'' []) \<Longrightarrow> simplifyCondition h (Some a) = None"
  by (simp add: simplifyCondition_def)

theorem simplify_empty_and_witness:
  "deref [Condition ''and'' []] 0 = Some (Condition ''and'' []) \<and>
   simplifyCondition [Condition ''and'' []] (Some 0) = None"
proof -
  have d: "deref [Condition ''and'' []] 0 = Some (Condition ''and'' [])"
    by (simp add: deref_def)
  show ?thesis
    using d simplify_empty_and [OF d] by simp
qed

subsection \<open>No mutation of the inputs\<close>

text \<open>
  C8. Whatever \<^verbatim>\<open>updateComponentCondition\<close> is called with and whether it returns or
  throws, every object that existed before the call is left as it was: the store after the
  call is the store before it followed by new cells. A returned root is either the
  composite that was passed in or a Condition that did not exist before the call.
\<close>

theorem inputs_not_mutated:
  assumes "updateComponentCondition cmp h C p cid cu = (h', res)"
  shows "take (length h) h' = h \<and>
         (\<forall>a. deref h a \<noteq> None \<longrightarrow> deref h' a = deref h a) \<and>
         (\<forall>r. res = Inr r \<longrightarrow>
            r = C \<or> (\<exists>a n ops. r = Some a \<and> deref h a = None \<and>
                                 deref h' a = Some (Condition n ops)))"
proof -
  from update_extends [of cmp h C p cid cu] assms
  obtain e where e: "h' = h @ e"
    and r: "\<And>r. res = Inr r \<Longrightarrow>
              r = C \<or> (\<exists>n ops. r = Some (Suc (length h)) \<and> e = [Component cid p, Condition n ops])"
    by auto
  have "take (length h) h' = h" using e by simp
  moreover have "\<forall>a. deref h a \<noteq> None \<longrightarrow> deref h' a = deref h a"
    using e by (auto simp: deref_append_Some)
  moreover have "\<forall>r. res = Inr r \<longrightarrow>
            r = C \<or> (\<exists>a n ops. r = Some a \<and> deref h a = None \<and>
                                 deref h' a = Some (Condition n ops))"
  proof (intro allI impI)
    fix r assume "res = Inr r"
    from r [OF this] show "r = C \<or> (\<exists>a n ops. r = Some a \<and> deref h a = None \<and>
                                 deref h' a = Some (Condition n ops))"
    proof
      assume "r = C" then show ?thesis ..
    next
      assume "\<exists>n ops. r = Some (Suc (length h)) \<and> e = [Component cid p, Condition n ops]"
      then obtain n ops where "r = Some (Suc (length h))" "e = [Component cid p, Condition n ops]"
        by blast
      then have "r = Some (Suc (length h)) \<and> deref h (Suc (length h)) = None \<and>
                 deref h' (Suc (length h)) = Some (Condition n ops)"
        using e by (simp add: deref_def nth_append)
      then show ?thesis by blast
    qed
  qed
  ultimately show ?thesis by blast
qed

theorem inputs_not_mutated_witness:
  "updateComponentCondition compareConditions
     [Component (Some ''a'') None, Condition ''and'' [0]] (Some 1) None (Some ''b'') True =
     ([Component (Some ''a'') None, Condition ''and'' [0], Component (Some ''b'') None,
       Condition ''and'' [0, 2]], Inr (Some 3)) \<and>
   take (length [Component (Some ''a'') None, Condition ''and'' [0]])
     [Component (Some ''a'') None, Condition ''and'' [0], Component (Some ''b'') None,
      Condition ''and'' [0, 2]] =
     [Component (Some ''a'') None, Condition ''and'' [0]]"
proof -
  have run: "updateComponentCondition compareConditions
     [Component (Some ''a'') None, Condition ''and'' [0]] (Some 1) None (Some ''b'') True =
     ([Component (Some ''a'') None, Condition ''and'' [0], Component (Some ''b'') None,
       Condition ''and'' [0, 2]], Inr (Some 3))"
    by (simp add: update_nonnull Let_def isLogicalCondition_def operands_of_def name_of_def
        deref_def)
  show ?thesis
    using run inputs_not_mutated [OF run] by simp
qed

subsection \<open>Without comparison every update rebuilds\<close>

text \<open>
  C10. For a composite that is a logical Condition whose operands are Component markers,
  \<^verbatim>\<open>updateComponentCondition\<close> with \<^verbatim>\<open>compareUpdate = false\<close> returns a Condition that
  did not exist before the call, hence never the composite itself, whatever the comparator
  would say about the new component condition.
\<close>

theorem no_compare_always_rebuilds:
  assumes "deref h root = Some (Condition name ops)"
    and "name = ''and'' \<or> name = ''or''"
    and "\<forall>a\<in>set ops. isComponent h a"
  shows "\<exists>h' r ops'. updateComponentCondition cmp h (Some root) p cid False = (h', Inr (Some r)) \<and>
           r \<noteq> root \<and> deref h r = None \<and> deref h' r = Some (Condition name ops')"
proof -
  have "root < length h" using assms(1) by (rule deref_Some_less)
  then show ?thesis
    unfolding update_valid_composite [OF assms]
    by (simp add: deref_def nth_append)
qed

theorem no_compare_always_rebuilds_witness:
  "\<exists>h' r ops'. updateComponentCondition compareConditions
       [Field ''age'', Component (Some ''a'') (Some 0), Condition ''and'' [1]]
       (Some 2) (Some 0) (Some ''a'') False = (h', Inr (Some r)) \<and>
     r \<noteq> 2 \<and>
     deref [Field ''age'', Component (Some ''a'') (Some 0), Condition ''and'' [1]] r = None \<and>
     deref h' r = Some (Condition ''and'' ops')"
proof -
  let ?h = "[Field ''age'', Component (Some ''a'') (Some 0), Condition ''and'' [1]]"
  have root: "deref ?h 2 = Some (Condition ''and'' [1])"
    by (simp add: deref_def)
  have name: "''and'' = ''and'' \<or> ''and'' = ''or''"
    by simp
  have ops: "\<forall>a\<in>set [1]. isComponent ?h a"
    by (simp add: isComponent_def deref_def)
  show ?thesis
    using no_compare_always_rebuilds [OF root name ops] by simp
qed

subsection \<open>Idempotence\<close>

text \<open>
  C7. With \<^verbatim>\<open>compareUpdate = true\<close> merging is idempotent by reference: if a merge of
  the component condition \<open>p\<close> under the id \<open>cid\<close> into the composite \<open>C\<close> returns the
  root \<open>r1\<close>, then merging the same \<open>p\<close> under the same id into \<open>r1\<close> returns \<open>r1\<close>
  itself, and adds nothing to the store but the marker that every call allocates. The
  comparator is the one modelled from the spec; filter expressions are trees (the store is
  tree-shaped), and \<open>p\<close> is \<^verbatim>\<open>null\<close> or an object of the store.
\<close>

theorem merge_idempotent:
  assumes ok: "heapOk h" and pv: "below (length h) p"
    and first: "updateComponentCondition compareConditions h C p cid True = (h1, Inr r1)"
  shows "updateComponentCondition compareConditions h1 r1 p cid True =
           (h1 @ [Component cid p], Inr r1)"
proof (cases C)
  case None
  let ?n = "length h"
  let ?c = "Condition ''and'' [?n]"
  from first None have h1: "h1 = h @ [Component cid p, ?c]" and r1: "r1 = Some (Suc ?n)"
    by (simp_all add: update_null)
  let ?h2 = "h1 @ [Component cid p]"
  have d: "deref ?h2 (Suc ?n) = Some ?c"
    unfolding h1 by (simp add: deref_def nth_append)
  have l: "isLogicalCondition ?h2 (Some (Suc ?n))"
    by (simp add: isLogicalCondition_def d)
  have o: "operands_of ?h2 (Suc ?n) = [?n]"
    by (simp add: operands_of_def d)
  have c: "isComponent ?h2 ?n"
    unfolding h1 by (simp add: isComponent_def deref_def nth_append)
  have u: "unchanged compareConditions ?h2 (length h1) cid ?n"
    using unchanged_refl [OF ok pv, of cid "[?c]"] unfolding h1 by simp
  show ?thesis
    unfolding r1 using l c u by (intro update_skips) (simp_all add: o)
next
  case (Some root)
  let ?n = "length h"
  let ?h' = "h @ [Component cid p]"
  let ?ops = "operands_of ?h' root"
  let ?lr = "updateLoop compareConditions ?h' ?n cid True ?ops [] False"
  have ok': "heapOk ?h'"
    using ok pv by (simp add: heapOk_snoc refsBelow_def)
  have pv': "below (length ?h') p"
    using pv by (rule below_mono) simp
  from first Some have log: "isLogicalCondition ?h' (Some root)"
    by (auto simp: update_nonnull Let_def split: if_splits)
  from logical_deref [OF log] have root: "deref ?h' root = Some (Condition (name_of ?h' root) ?ops)"
    and name: "name_of ?h' root = ''and'' \<or> name_of ?h' root = ''or''"
    by auto
  show ?thesis
  proof (cases ?lr)
    case (Threw err)
    with first Some log show ?thesis
      by (simp add: update_nonnull Let_def)
  next
    case ReturnOriginal
    with first Some log have h1: "h1 = ?h'" and r1: "r1 = Some root"
      by (simp_all add: update_nonnull Let_def)
    have "updateLoop compareConditions (?h' @ [Component cid p]) (length ?h') cid True ?ops [] False =
            ReturnOriginal"
      using ok' pv' _ _ ReturnOriginal
      by (rule skip_mono) (simp_all only: condition_of_new)
    moreover have "operands_of (?h' @ [Component cid p]) root = ?ops"
      using root by (rule operands_of_append)
    moreover have "isLogicalCondition (?h' @ [Component cid p]) (Some root)"
      using log by (rule logical_ext)
    ultimately show ?thesis
      unfolding h1 r1 by (simp add: update_nonnull Let_def)
  next
    case (Finished cs f)
    from loop_Finished [OF this]
    have comps: "\<forall>a\<in>set ?ops. isComponent ?h' a"
      and cs: "cs = replaced ?h' ?n cid ?ops"
      and f: "f \<longleftrightarrow> (\<exists>a\<in>set ?ops. id_of ?h' a = cid)"
      by simp_all
    let ?ops' = "if f then cs else cs @ [?n]"
    let ?c = "Condition (name_of ?h' root) ?ops'"
    from first Some log Finished have h1: "h1 = h @ [Component cid p, ?c]" and r1: "r1 = Some (Suc ?n)"
      by (simp_all add: update_nonnull Let_def)
    let ?h2 = "h1 @ [Component cid p]"
    have d: "deref ?h2 (Suc ?n) = Some ?c"
      unfolding h1 by (simp add: deref_def nth_append)
    have l: "isLogicalCondition ?h2 (Some (Suc ?n))"
      using name by (simp add: isLogicalCondition_def d)
    have o: "operands_of ?h2 (Suc ?n) = ?ops'"
      by (simp add: operands_of_def d)
    have "isComponent ?h' ?n"
      by (simp add: isComponent_def deref_append_new)
    with comps have "\<forall>a\<in>set ?ops'. isComponent (?h' @ [?c, Component cid p]) a"
      unfolding cs by (rule rebuilt_components)
    then have c: "\<forall>a\<in>set ?ops'. isComponent ?h2 a"
      unfolding h1 by simp
    have m: "?n \<in> set ?ops'"
      using new_in_rebuilt [of h ?ops ?h' cid] unfolding cs f by simp
    have u: "unchanged compareConditions ?h2 (length h1) cid ?n"
      using unchanged_refl [OF ok pv, of cid "[?c]"] unfolding h1 by simp
    show ?thesis
      unfolding r1 using l c u m by (intro update_skips) (auto simp: o)
  qed
qed

theorem merge_idempotent_witness:
  "updateComponentCondition compareConditions
     [Field ''age'', Value ''Int'' (SInt 18) None, Condition ''gte'' [0, 1],
      Component (Some ''ageFilter'') None, Condition ''and'' [3]]
     (Some 4) (Some 2) (Some ''ageFilter'') True =
     ([Field ''age'', Value ''Int'' (SInt 18) None, Condition ''gte'' [0, 1],
       Component (Some ''ageFilter'') None, Condition ''and'' [3],
       Component (Some ''ageFilter'') (Some 2), Condition ''and'' [5]], Inr (Some 6)) \<and>
   updateComponentCondition compareConditions
     [Field ''age'', Value ''Int'' (SInt 18) None, Condition ''gte'' [0, 1],
      Component (Some ''ageFilter'') None, Condition ''and'' [3],
      Component (Some ''ageFilter'') (Some 2), Condition ''and'' [5]]
     (Some 6) (Some 2) (Some ''ageFilter'') True =
     ([Field ''age'', Value ''Int'' (SInt 18) None, Condition ''gte'' [0, 1],
       Component (Some ''ageFilter'') None, Condition ''and'' [3],
       Component (Some ''ageFilter'') (Some 2), Condition ''and'' [5]] @
        [Component (Some ''ageFilter'') (Some 2)], Inr (Some 6))"
proof -
  let ?h = "[Field ''age'', Value ''Int'' (SInt 18) None, Condition ''gte'' [0, 1],
             Component (Some ''ageFilter'') None, Condition ''and'' [3]]"
  have ok: "heapOk ?h"
    by (simp add: heapOk_def refsBelow_def below_def)
  have pv: "below (length ?h) (Some 2)"
    by (simp add: below_def)
  have first: "updateComponentCondition compareConditions ?h (Some 4) (Some 2)
       (Some ''ageFilter'') True =
     ([Field ''age'', Value ''Int'' (SInt 18) None, Condition ''gte'' [0, 1],
       Component (Some ''ageFilter'') None, Condition ''and'' [3],
       Component (Some ''ageFilter'') (Some 2), Condition ''and'' [5]], Inr (Some 6))"
    by (simp add: update_nonnull Let_def isLogicalCondition_def operands_of_def name_of_def
        condition_of_def simplifyCondition_def deref_def compareConditions.simps)
  show ?thesis
    using first merge_idempotent [OF ok pv first] by simp
qed

end
